theory Spec2Isabelle
  imports Main "HOL-Library.AList" "HOL-Library.Multiset"
begin

section \<open>ObjectIds and the strings of a request\<close>

text \<open>
  The server keeps two Mongoose collections, \<open>User\<close> and \<open>Post\<close>. Every \<open>_id\<close> and
  every reference in them is an ObjectId: twelve bytes, which \<open>toString()\<close> prints as
  24 lower-case hexadecimal digits. The type \<open>objectId\<close> is the type of these prints.

  A request carries ids as strings. Where a handler hands such a string to Mongoose
  (\<open>findById\<close>, a query filter, \<open>push\<close> on an array of ObjectIds, a field of a
  comment), Mongoose casts it: a string of 24 hexadecimal digits, in either case, is the
  ObjectId with these digits, and any other string is a cast error, which the handler's
  \<open>catch\<close> answers with status 500. Where a handler compares itself
  (\<open>userId === targetId\<close>, \<open>id.toString() === userId\<close>, \<open>includes\<close>), it compares the
  request string as it came.
\<close>

definition is_hex :: "char \<Rightarrow> bool" where
  "is_hex c = (c \<in> set ''0123456789abcdefABCDEF'')"

definition lower_hex :: "char \<Rightarrow> char" where
  "lower_hex c =
     (if c = CHR ''A'' then CHR ''a'' else if c = CHR ''B'' then CHR ''b''
      else if c = CHR ''C'' then CHR ''c'' else if c = CHR ''D'' then CHR ''d''
      else if c = CHR ''E'' then CHR ''e'' else if c = CHR ''F'' then CHR ''f''
      else c)"

definition hex_digits :: string where
  "hex_digits = ''0123456789abcdef''"

typedef objectId = "{s :: string. length s = 24 \<and> set s \<subseteq> set hex_digits}"
  morphisms toString ObjectId
  by (rule exI [of _ "replicate 24 CHR ''0''"]) (simp add: hex_digits_def)

definition castObjectId :: "string \<Rightarrow> objectId option" where
  "castObjectId s =
     (if length s = 24 \<and> list_all is_hex s then Some (ObjectId (map lower_hex s))
      else None)"

section \<open>Data model of \<open>backend/server.js\<close>\<close>

text \<open>
  The empty string stands for every falsy request field (absent, \<open>null\<close> or \<open>""\<close>): the
  handlers only test \<open>!field\<close>. Dates are milliseconds as integers, and the JavaScript
  number \<open>likes\<close> is an integer. The \<open>_id\<close> of a document is its key in the database;
  the \<open>_id\<close> Mongoose gives every comment and the version key are read by no handler and
  are left out.

  Reads and writes of the database succeed here, so the \<open>catch\<close> branch of a handler
  (status 500) is reached only where a cast fails or the handler's own code throws.
\<close>

type_synonym date = int

record user =
  firstName :: string
  lastName :: string
  email :: string
  password :: string
  profileImage :: string
  bio :: string
  location :: string
  website :: string
  followers :: "objectId list"
  following :: "objectId list"
  user_createdAt :: date

record comment =
  comment_userId :: objectId
  comment_text :: string
  comment_createdAt :: date

record post =
  post_userId :: objectId
  post_text :: string
  post_image :: string
  post_video :: string
  likes :: int
  likedBy :: "objectId list"
  shares :: int
  comments :: "comment list"
  post_createdAt :: date

text \<open>
  The database: users are only ever read and written by id, so they are a map; posts are
  also listed, so they are an association list in the collection's natural order, read
  with \<open>map_of\<close>.
\<close>

record db =
  users :: "objectId \<rightharpoonup> user"
  posts :: "(objectId \<times> post) list"

text \<open>
  A handler answers \<open>res.status(s).json({message: m})\<close> on every failing path; that is
  \<open>Failure s m\<close>. The answer with status 200 is the \<open>Inr\<close> of the result.
\<close>

datatype failure = Failure (status: nat) (message: string)

definition server_error :: failure where
  "server_error = Failure 500 ''Server error.''"

section \<open>Follow and unfollow\<close>

text \<open>
  \<open>me.save()\<close> and \<open>them.save()\<close> write the path the handler modified on that document
  (Mongoose sends the changed paths only): \<open>following\<close> of the one, \<open>followers\<close> of the
  other.
\<close>

definition save_following :: "db \<Rightarrow> objectId \<Rightarrow> objectId list \<Rightarrow> db" where
  "save_following d i fs =
     (case users d i of
        None \<Rightarrow> d
      | Some u \<Rightarrow> d\<lparr>users := (users d)(i \<mapsto> u\<lparr>following := fs\<rparr>)\<rparr>)"

definition save_followers :: "db \<Rightarrow> objectId \<Rightarrow> objectId list \<Rightarrow> db" where
  "save_followers d i fs =
     (case users d i of
        None \<Rightarrow> d
      | Some u \<Rightarrow> d\<lparr>users := (users d)(i \<mapsto> u\<lparr>followers := fs\<rparr>)\<rparr>)"

text \<open>
  \<open>POST /user/follow\<close> with body \<open>{userId, targetId}\<close>. The self check compares the two
  request strings; both \<open>findById\<close> calls and both \<open>push\<close> calls cast them
  (\<open>myId\<close>, \<open>theirId\<close>); \<open>includes\<close> compares the request string with the prints of the
  stored ids.
\<close>

definition user_follow :: "db \<Rightarrow> string \<Rightarrow> string \<Rightarrow> db \<times> (failure + string)" where
  "user_follow d userId targetId =
     (if userId = [] \<or> targetId = [] then
        (d, Inl (Failure 400 ''userId and targetId are required.''))
      else if userId = targetId then
        (d, Inl (Failure 400 ''You cannot follow yourself.''))
      else
        (case castObjectId userId of
           None \<Rightarrow> (d, Inl server_error)
         | Some myId \<Rightarrow>
        (case castObjectId targetId of
           None \<Rightarrow> (d, Inl server_error)
         | Some theirId \<Rightarrow>
        (case users d myId of
           None \<Rightarrow> (d, Inl (Failure 404 ''User not found.''))
         | Some me \<Rightarrow>
        (case users d theirId of
           None \<Rightarrow> (d, Inl (Failure 404 ''User not found.''))
         | Some them \<Rightarrow>
             (let d1 = (if targetId \<in> set (map toString (following me)) then d
                        else save_following d myId (following me @ [theirId]));
                  d2 = (if userId \<in> set (map toString (followers them)) then d1
                        else save_followers d1 theirId (followers them @ [myId]))
              in (d2, Inr ''Followed successfully.'')))))))"

text \<open>\<open>POST /user/unfollow\<close> with body \<open>{userId, targetId}\<close>; there is no self check.\<close>

definition user_unfollow :: "db \<Rightarrow> string \<Rightarrow> string \<Rightarrow> db \<times> (failure + string)" where
  "user_unfollow d userId targetId =
     (if userId = [] \<or> targetId = [] then
        (d, Inl (Failure 400 ''userId and targetId are required.''))
      else
        (case castObjectId userId of
           None \<Rightarrow> (d, Inl server_error)
         | Some myId \<Rightarrow>
        (case castObjectId targetId of
           None \<Rightarrow> (d, Inl server_error)
         | Some theirId \<Rightarrow>
        (case users d myId of
           None \<Rightarrow> (d, Inl (Failure 404 ''User not found.''))
         | Some me \<Rightarrow>
        (case users d theirId of
           None \<Rightarrow> (d, Inl (Failure 404 ''User not found.''))
         | Some them \<Rightarrow>
             (let d1 = save_following d myId
                         (filter (\<lambda>i. toString i \<noteq> targetId) (following me));
                  d2 = save_followers d1 theirId
                         (filter (\<lambda>i. toString i \<noteq> userId) (followers them))
              in (d2, Inr ''Unfollowed successfully.'')))))))"

section \<open>Populate\<close>

text \<open>
  \<open>populate(path, "firstName lastName profileImage")\<close> replaces a referenced id by the
  selected fields of the user it names. A single reference that names no user becomes
  \<open>null\<close> (\<open>None\<close>); in an array of references those entries are left out.
\<close>

record user_summary =
  summary_id :: objectId
  summary_firstName :: string
  summary_lastName :: string
  summary_profileImage :: string

definition populate_user :: "db \<Rightarrow> objectId \<Rightarrow> user_summary option" where
  "populate_user d i =
     (case users d i of
        None \<Rightarrow> None
      | Some u \<Rightarrow> Some \<lparr>summary_id = i, summary_firstName = firstName u,
                         summary_lastName = lastName u,
                         summary_profileImage = profileImage u\<rparr>)"

definition populate_users :: "db \<Rightarrow> objectId list \<Rightarrow> user_summary list" where
  "populate_users d ids = List.map_filter (populate_user d) ids"

section \<open>Profile\<close>

record profile_view =
  profile_id :: objectId
  profile_firstName :: string
  profile_lastName :: string
  profile_email :: string
  profile_profileImage :: string
  profile_bio :: string
  profile_location :: string
  profile_website :: string
  profile_followers :: "user_summary list"
  profile_following :: "user_summary list"
  profile_createdAt :: date
  followersCount :: nat
  followingCount :: nat
  isFollowing :: bool

text \<open>
  \<open>GET /profile/:id?myId=...\<close>. The query parameter \<open>myId\<close> is optional. \<open>findById\<close>
  casts \<open>id\<close>. The password is deselected; \<open>followers\<close> and \<open>following\<close> are populated
  before they are counted and searched. \<open>myId\<close> is compared as it came, with \<open>id\<close> as
  it came and with the prints of the followers' ids.
\<close>

definition get_profile :: "db \<Rightarrow> string \<Rightarrow> string option \<Rightarrow> failure + profile_view" where
  "get_profile d uid myId =
     (case castObjectId uid of
        None \<Rightarrow> Inl server_error
      | Some i \<Rightarrow>
     (case users d i of
        None \<Rightarrow> Inl (Failure 404 ''User not found.'')
      | Some u \<Rightarrow>
          (let user_followers = populate_users d (followers u);
               user_following = populate_users d (following u)
           in Inr \<lparr>profile_id = i, profile_firstName = firstName u,
                    profile_lastName = lastName u, profile_email = email u,
                    profile_profileImage = profileImage u, profile_bio = bio u,
                    profile_location = location u, profile_website = website u,
                    profile_followers = user_followers,
                    profile_following = user_following,
                    profile_createdAt = user_createdAt u,
                    followersCount = length user_followers,
                    followingCount = length user_following,
                    isFollowing =
                      (case myId of
                         None \<Rightarrow> False
                       | Some m \<Rightarrow>
                           if m \<noteq> [] \<and> m \<noteq> uid
                           then list_ex (\<lambda>f. toString (summary_id f) = m) user_followers
                           else False)\<rparr>)))"

section \<open>Likes and comments\<close>

definition save_post :: "db \<Rightarrow> objectId \<Rightarrow> post \<Rightarrow> db" where
  "save_post d i p = d\<lparr>posts := AList.update i p (posts d)\<rparr>"

record like_body =
  like_message :: string
  like_likes :: int
  like_likedBy :: "objectId list"

text \<open>
  The branch of \<open>POST /post/like\<close> on \<open>alreadyLiked\<close>: what it does to the post it
  found. \<open>some\<close> and \<open>filter\<close> compare \<open>id.toString()\<close> with \<open>userId\<close> as it came;
  \<open>push\<close> casts \<open>userId\<close> and throws when it does not cast (\<open>None\<close>), before the
  counter is touched.
\<close>

definition toggle_like :: "string \<Rightarrow> post \<Rightarrow> post option" where
  "toggle_like userId p =
     (let alreadyLiked = list_ex (\<lambda>i. toString i = userId) (likedBy p)
      in if alreadyLiked then
           Some (p\<lparr>likedBy := filter (\<lambda>i. toString i \<noteq> userId) (likedBy p),
                   likes := max (likes p - 1) 0\<rparr>)
         else
           (case castObjectId userId of
              None \<Rightarrow> None
            | Some u \<Rightarrow> Some (p\<lparr>likedBy := likedBy p @ [u], likes := likes p + 1\<rparr>)))"

text \<open>\<open>POST /post/like\<close> with body \<open>{postId, userId}\<close>; \<open>findById\<close> casts \<open>postId\<close>.\<close>

definition post_like :: "db \<Rightarrow> string \<Rightarrow> string \<Rightarrow> db \<times> (failure + like_body)" where
  "post_like d postId userId =
     (if postId = [] \<or> userId = [] then
        (d, Inl (Failure 400 ''postId and userId are required.''))
      else
        (case castObjectId postId of
           None \<Rightarrow> (d, Inl server_error)
         | Some pid \<Rightarrow>
        (case map_of (posts d) pid of
           None \<Rightarrow> (d, Inl (Failure 404 ''Post not found.''))
         | Some p \<Rightarrow>
        (case toggle_like userId p of
           None \<Rightarrow> (d, Inl server_error)
         | Some p' \<Rightarrow>
             (save_post d pid p',
              Inr \<lparr>like_message = ''Post like updated.'', like_likes = likes p',
                   like_likedBy = likedBy p'\<rparr>)))))"

text \<open>A run of like requests, each a pair of \<open>postId\<close> and \<open>userId\<close>, one after the other.\<close>

fun like_all :: "db \<Rightarrow> (string \<times> string) list \<Rightarrow> db" where
  "like_all d [] = d"
| "like_all d ((postId, userId) # rs) = like_all (fst (post_like d postId userId)) rs"

record populated_comment =
  populated_user :: "user_summary option"
  populated_text :: string
  populated_createdAt :: date

definition populate_comment :: "db \<Rightarrow> comment \<Rightarrow> populated_comment" where
  "populate_comment d c =
     \<lparr>populated_user = populate_user d (comment_userId c),
      populated_text = comment_text c, populated_createdAt = comment_createdAt c\<rparr>"

text \<open>
  \<open>POST /post/comment\<close> with body \<open>{postId, userId, commentText}\<close>; \<open>now\<close> is the value of
  \<open>new Date()\<close> when the handler runs. \<open>findById\<close> casts \<open>postId\<close>; the comment's
  \<open>userId\<close> is cast when the comment is stored, and a string that does not cast makes
  \<open>save\<close> fail.
\<close>

definition post_comment ::
  "db \<Rightarrow> date \<Rightarrow> string \<Rightarrow> string \<Rightarrow> string \<Rightarrow> db \<times> (failure + populated_comment list)" where
  "post_comment d now postId userId commentText =
     (if postId = [] \<or> userId = [] \<or> commentText = [] then
        (d, Inl (Failure 400 ''postId, userId, and commentText are required.''))
      else
        (case castObjectId postId of
           None \<Rightarrow> (d, Inl server_error)
         | Some pid \<Rightarrow>
        (case map_of (posts d) pid of
           None \<Rightarrow> (d, Inl (Failure 404 ''Post not found.''))
         | Some p \<Rightarrow>
        (case castObjectId userId of
           None \<Rightarrow> (d, Inl server_error)
         | Some u \<Rightarrow>
             (let c = \<lparr>comment_userId = u, comment_text = commentText,
                       comment_createdAt = now\<rparr>;
                  p' = p\<lparr>comments := comments p @ [c]\<rparr>;
                  d' = save_post d pid p'
              in (d', Inr (map (populate_comment d') (comments p'))))))))"

section \<open>Listing posts\<close>

record feed_entry =
  entry_id :: objectId
  entry_userId :: objectId
  userName :: string
  userAvatar :: string
  entry_text :: string
  entry_image :: string
  entry_video :: string
  entry_likes :: int
  entry_likedBy :: "objectId list"
  entry_shares :: int
  entry_comments :: nat
  entry_createdAt :: date

text \<open>
  \<open>GET /posts?userId=...\<close>. The filter is \<open>{userId}\<close> when the query parameter is truthy
  and \<open>{}\<close> otherwise. The query casts the \<open>userId\<close> of the filter; \<open>post_filter\<close> is
  \<open>None\<close> when it does not cast, and otherwise the test the filter makes on a post.
  \<open>find_posts\<close> is what \<open>Post.find(filter)\<close> matches.
\<close>

definition post_filter :: "string option \<Rightarrow> (objectId \<times> post \<Rightarrow> bool) option" where
  "post_filter userId =
     (case userId of
        None \<Rightarrow> Some (\<lambda>ip. True)
      | Some u \<Rightarrow>
          if u \<noteq> [] then
            (case castObjectId u of
               None \<Rightarrow> None
             | Some x \<Rightarrow> Some (\<lambda>ip. post_userId (snd ip) = x))
          else Some (\<lambda>ip. True))"

definition find_posts :: "db \<Rightarrow> string option \<Rightarrow> (objectId \<times> post) list option" where
  "find_posts d userId =
     (case post_filter userId of
        None \<Rightarrow> None
      | Some f \<Rightarrow> Some (filter f (posts d)))"

text \<open>
  \<open>.sort({createdAt: -1})\<close> names one key. The database answers with the matched
  documents rearranged so that \<open>createdAt\<close> never increases; the handler gives no
  second key, so which of two documents of equal \<open>createdAt\<close> comes first is not
  decided by it. \<open>sorted_posts d userId ps\<close> holds for every answer \<open>ps\<close> the query
  admits.
\<close>

definition newest_first :: "(objectId \<times> post) list \<Rightarrow> bool" where
  "newest_first ps =
     sorted_wrt (\<lambda>a b. post_createdAt (snd b) \<le> post_createdAt (snd a)) ps"

definition sorted_posts :: "db \<Rightarrow> string option \<Rightarrow> (objectId \<times> post) list \<Rightarrow> bool" where
  "sorted_posts d userId ps =
     (case find_posts d userId of
        None \<Rightarrow> False
      | Some found \<Rightarrow> mset ps = mset found \<and> newest_first ps)"

text \<open>
  \<open>posts.map(...)\<close> over the populated answer. \<open>post.userId\<close> is \<open>null\<close> when the author
  names no user, and \<open>userDoc._id\<close> then throws (\<open>None\<close>); the handler's \<open>catch\<close>
  answers 500, as it does when the filter does not cast.
\<close>

definition mapped_post :: "db \<Rightarrow> objectId \<times> post \<Rightarrow> feed_entry option" where
  "mapped_post d ip =
     (case populate_user d (post_userId (snd ip)) of
        None \<Rightarrow> None
      | Some userDoc \<Rightarrow>
          Some \<lparr>entry_id = fst ip, entry_userId = summary_id userDoc,
                userName = summary_firstName userDoc @ '' '' @ summary_lastName userDoc,
                userAvatar = summary_profileImage userDoc,
                entry_text = post_text (snd ip), entry_image = post_image (snd ip),
                entry_video = post_video (snd ip), entry_likes = likes (snd ip),
                entry_likedBy = likedBy (snd ip), entry_shares = shares (snd ip),
                entry_comments = length (comments (snd ip)),
                entry_createdAt = post_createdAt (snd ip)\<rparr>)"

fun mapped_posts :: "db \<Rightarrow> (objectId \<times> post) list \<Rightarrow> feed_entry list option" where
  "mapped_posts d [] = Some []"
| "mapped_posts d (ip # ps) =
     (case mapped_post d ip of
        None \<Rightarrow> None
      | Some e \<Rightarrow>
          (case mapped_posts d ps of
             None \<Rightarrow> None
           | Some es \<Rightarrow> Some (e # es)))"

definition get_posts ::
  "db \<Rightarrow> string option \<Rightarrow> (objectId \<times> post) list \<Rightarrow> failure + feed_entry list" where
  "get_posts d userId ps =
     (case post_filter userId of
        None \<Rightarrow> Inl server_error
      | Some f \<Rightarrow>
          (case mapped_posts d ps of
             None \<Rightarrow> Inl server_error
           | Some es \<Rightarrow> Inr es))"

section \<open>Example data\<close>

text \<open>
  Request strings: the ids of Alice, Bob and three posts as \<open>toString()\<close> prints them,
  and the ids of Alice and Bob written with upper-case digits.
\<close>

definition alice_hex :: string where "alice_hex = ''65a1f0c2b3d4e5f6a7b8c9d0''"
definition alice_upper :: string where "alice_upper = ''65A1F0C2B3D4E5F6A7B8C9D0''"
definition bob_hex :: string where "bob_hex = ''65b2f0c2b3d4e5f6a7b8c9d1''"
definition bob_upper :: string where "bob_upper = ''65B2F0C2B3D4E5F6A7B8C9D1''"
definition post1_hex :: string where "post1_hex = ''66c3f0c2b3d4e5f6a7b8c9e1''"
definition post2_hex :: string where "post2_hex = ''66c3f0c2b3d4e5f6a7b8c9e2''"
definition post3_hex :: string where "post3_hex = ''66c3f0c2b3d4e5f6a7b8c9e3''"

definition alice_id :: objectId where "alice_id = ObjectId alice_hex"
definition bob_id :: objectId where "bob_id = ObjectId bob_hex"
definition post1_id :: objectId where "post1_id = ObjectId post1_hex"
definition post2_id :: objectId where "post2_id = ObjectId post2_hex"
definition post3_id :: objectId where "post3_id = ObjectId post3_hex"

definition alice :: user where
  "alice = \<lparr>firstName = ''Alice'', lastName = ''Roy'', email = ''alice@example.org'',
     password = ''$2b$10$hashA'', profileImage = '''', bio = '''', location = '''',
     website = '''', followers = [], following = [], user_createdAt = 1700000000000\<rparr>"

definition bob :: user where
  "bob = \<lparr>firstName = ''Bob'', lastName = ''Das'', email = ''bob@example.org'',
     password = ''$2b$10$hashB'', profileImage = ''profileImage-1.png'', bio = '''',
     location = '''', website = '''', followers = [], following = [],
     user_createdAt = 1700000001000\<rparr>"

text \<open>Two users who signed up and nothing else.\<close>

definition two_users :: db where
  "two_users = \<lparr>users = [alice_id \<mapsto> alice, bob_id \<mapsto> bob], posts = []\<rparr>"

text \<open>The same two users once Bob follows Alice.\<close>

definition followed_db :: db where
  "followed_db =
     \<lparr>users = [alice_id \<mapsto> alice\<lparr>followers := [bob_id]\<rparr>,
               bob_id \<mapsto> bob\<lparr>following := [alice_id]\<rparr>],
      posts = []\<rparr>"

text \<open>A post of Alice's as \<open>POST /post\<close> creates it, and the database holding it.\<close>

definition fresh_post :: post where
  "fresh_post = \<lparr>post_userId = alice_id, post_text = ''hello'', post_image = '''',
     post_video = '''', likes = 0, likedBy = [], shares = 0, comments = [],
     post_createdAt = 1700000100000\<rparr>"

definition one_post :: db where
  "one_post = \<lparr>users = [alice_id \<mapsto> alice, bob_id \<mapsto> bob],
     posts = [(post1_id, fresh_post)]\<rparr>"

text \<open>The post after Bob and then Alice liked it.\<close>

definition liked_post :: post where
  "liked_post = fresh_post\<lparr>likes := 2, likedBy := [bob_id, alice_id]\<rparr>"

definition liked_db :: db where
  "liked_db = \<lparr>users = [alice_id \<mapsto> alice, bob_id \<mapsto> bob],
     posts = [(post1_id, liked_post)]\<rparr>"

text \<open>A stored post whose counter is 0 although Bob is in \<open>likedBy\<close>.\<close>

definition stale_post :: post where
  "stale_post = fresh_post\<lparr>likes := 0, likedBy := [bob_id]\<rparr>"

definition stale_db :: db where
  "stale_db = \<lparr>users = [alice_id \<mapsto> alice, bob_id \<mapsto> bob],
     posts = [(post1_id, stale_post)]\<rparr>"

text \<open>The post with two comments, Bob's and then Alice's, and the database holding it.\<close>

definition first_comment :: comment where
  "first_comment = \<lparr>comment_userId = bob_id, comment_text = ''first'',
     comment_createdAt = 1700000110000\<rparr>"

definition second_comment :: comment where
  "second_comment = \<lparr>comment_userId = alice_id, comment_text = ''thanks'',
     comment_createdAt = 1700000120000\<rparr>"

definition commented_post :: post where
  "commented_post = fresh_post\<lparr>comments := [first_comment, second_comment]\<rparr>"

definition commented_db :: db where
  "commented_db = \<lparr>users = [alice_id \<mapsto> alice, bob_id \<mapsto> bob],
     posts = [(post1_id, commented_post)]\<rparr>"

text \<open>
  Three posts: two of Alice's with the same \<open>createdAt\<close>, and a later one of Bob's
  between them in the collection.
\<close>

definition again_post :: post where
  "again_post = fresh_post\<lparr>post_text := ''again''\<rparr>"

definition feed_db :: db where
  "feed_db = \<lparr>users = [alice_id \<mapsto> alice, bob_id \<mapsto> bob],
     posts = [(post1_id, fresh_post),
              (post2_id, fresh_post\<lparr>post_userId := bob_id, post_text := ''from bob'',
                           post_createdAt := 1700000300000\<rparr>),
              (post3_id, again_post)]\<rparr>"

definition feed_entry1 :: feed_entry where
  "feed_entry1 = \<lparr>entry_id = post1_id, entry_userId = alice_id, userName = ''Alice Roy'',
     userAvatar = '''', entry_text = ''hello'', entry_image = '''', entry_video = '''',
     entry_likes = 0, entry_likedBy = [], entry_shares = 0, entry_comments = 0,
     entry_createdAt = 1700000100000\<rparr>"

definition feed_entry3 :: feed_entry where
  "feed_entry3 = feed_entry1\<lparr>entry_id := post3_id, entry_text := ''again''\<rparr>"

section \<open>Properties of the cast\<close>

lemma lower_hex_digit:
  "is_hex c \<Longrightarrow> lower_hex c \<in> set hex_digits"
  by (auto simp: is_hex_def lower_hex_def hex_digits_def)

lemma lower_hex_print:
  "c \<in> set hex_digits \<Longrightarrow> lower_hex c = c \<and> is_hex c"
  by (auto simp: is_hex_def lower_hex_def hex_digits_def)

lemma length_toString [simp]: "length (toString i) = 24"
  using toString [of i] by simp

lemma toString_not_empty [simp]: "toString i \<noteq> []"
  using length_toString [of i] by (cases "toString i") simp_all

lemma toString_cast:
  assumes "castObjectId s = Some i"
  shows "toString i = map lower_hex s"
proof -
  from assms have l: "length s = 24" and h: "list_all is_hex s"
    and i: "i = ObjectId (map lower_hex s)"
    by (auto simp: castObjectId_def split: if_splits)
  from h have "\<forall>c\<in>set s. lower_hex c \<in> set hex_digits"
    by (simp add: list_all_iff lower_hex_digit)
  then have "set (map lower_hex s) \<subseteq> set hex_digits"
    by (simp add: image_subset_iff)
  with l show ?thesis
    by (simp add: i ObjectId_inverse)
qed

text \<open>A print casts back to the id it prints; so ids with the same print are the same.\<close>

lemma cast_toString [simp]: "castObjectId (toString i) = Some i"
proof -
  from toString [of i] have d: "\<forall>c\<in>set (toString i). c \<in> set hex_digits"
    by (simp add: subset_iff)
  then have "list_all is_hex (toString i)"
    by (simp add: list_all_iff lower_hex_print)
  moreover from d have "map lower_hex (toString i) = toString i"
    by (simp add: map_idI lower_hex_print)
  ultimately show ?thesis
    by (simp add: castObjectId_def toString_inverse)
qed

lemma toString_eq_cast: "toString i = s \<Longrightarrow> castObjectId s = Some i"
  by auto

lemma cast_not_empty: "castObjectId s = Some i \<Longrightarrow> s \<noteq> []"
  by (auto simp: castObjectId_def split: if_splits)

lemma member_prints:
  "castObjectId s = Some j \<Longrightarrow> s \<in> set (map toString is) \<Longrightarrow> j \<in> set is"
  by auto

text \<open>The example strings and the ids they cast to.\<close>

lemma toString_examples:
  "toString alice_id = alice_hex" "toString bob_id = bob_hex"
  "toString post1_id = post1_hex" "toString post2_id = post2_hex"
  "toString post3_id = post3_hex"
  by (simp_all add: alice_id_def bob_id_def post1_id_def post2_id_def post3_id_def
      alice_hex_def bob_hex_def post1_hex_def post2_hex_def post3_hex_def ObjectId_inverse
      hex_digits_def)

lemma cast_examples:
  "castObjectId alice_hex = Some alice_id" "castObjectId bob_hex = Some bob_id"
  "castObjectId post1_hex = Some post1_id" "castObjectId post2_hex = Some post2_id"
  "castObjectId post3_hex = Some post3_id"
  using toString_examples by (simp_all add: toString_eq_cast)

lemma cast_upper:
  "castObjectId alice_upper = Some alice_id" "castObjectId bob_upper = Some bob_id"
  by (simp_all add: castObjectId_def is_hex_def lower_hex_def alice_upper_def bob_upper_def
      alice_id_def bob_id_def alice_hex_def bob_hex_def)

lemma strings_differ:
  "alice_upper \<noteq> alice_hex" "bob_upper \<noteq> bob_hex" "alice_hex \<noteq> bob_hex"
  "alice_hex \<noteq> alice_upper" "bob_hex \<noteq> bob_upper"
  "bob_hex \<noteq> alice_hex" "alice_hex \<noteq> []" "bob_hex \<noteq> []" "alice_upper \<noteq> []"
  "bob_upper \<noteq> []" "post1_hex \<noteq> []"
  by (simp_all add: alice_upper_def alice_hex_def bob_upper_def bob_hex_def post1_hex_def)

lemma ids_distinct:
  "alice_id \<noteq> bob_id" "bob_id \<noteq> alice_id"
  "post1_id \<noteq> post2_id" "post1_id \<noteq> post3_id" "post2_id \<noteq> post3_id"
  "post2_id \<noteq> post1_id" "post3_id \<noteq> post1_id" "post3_id \<noteq> post2_id"
proof -
  have "toString alice_id \<noteq> toString bob_id" "toString post1_id \<noteq> toString post2_id"
    "toString post1_id \<noteq> toString post3_id" "toString post2_id \<noteq> toString post3_id"
    by (simp_all add: toString_examples alice_hex_def bob_hex_def post1_hex_def
        post2_hex_def post3_hex_def)
  then show "alice_id \<noteq> bob_id" "bob_id \<noteq> alice_id"
    "post1_id \<noteq> post2_id" "post1_id \<noteq> post3_id" "post2_id \<noteq> post3_id"
    "post2_id \<noteq> post1_id" "post3_id \<noteq> post1_id" "post3_id \<noteq> post2_id"
    by auto
qed

section \<open>Properties of follow and unfollow\<close>

lemma save_following_users:
  "users d i = Some u \<Longrightarrow>
   users (save_following d i fs) = (users d)(i \<mapsto> u\<lparr>following := fs\<rparr>)"
  by (simp add: save_following_def)

lemma save_followers_users:
  "users d i = Some u \<Longrightarrow>
   users (save_followers d i fs) = (users d)(i \<mapsto> u\<lparr>followers := fs\<rparr>)"
  by (simp add: save_followers_def)

lemma user_follow_found:
  assumes "A \<noteq> B" and "castObjectId A = Some i" and "castObjectId B = Some j"
    and "users d i = Some a" and "users d j = Some b"
  shows "user_follow d A B =
           (let d1 = (if B \<in> set (map toString (following a)) then d
                      else save_following d i (following a @ [j]));
                d2 = (if A \<in> set (map toString (followers b)) then d1
                      else save_followers d1 j (followers b @ [i]))
            in (d2, Inr ''Followed successfully.''))"
  using assms cast_not_empty [of A i] cast_not_empty [of B j]
  by (simp add: user_follow_def)

text \<open>
  Claim C1. Let A and B be request strings that differ and that cast to the ids of
  existing users, as the ids of two distinct users do in every spelling. Then
  \<open>follow(A, B)\<close> succeeds, and in the database it leaves the user of B is in the
  \<open>following\<close> list of the user of A, and the user of A is in the \<open>followers\<close> list of
  the user of B.
\<close>

theorem follow_adds_edge:
  assumes "A \<noteq> B" and "castObjectId A = Some i" and "castObjectId B = Some j"
    and "users d i = Some a" and "users d j = Some b"
  shows "\<exists>d' a' b'. user_follow d A B = (d', Inr ''Followed successfully.'') \<and>
           users d' i = Some a' \<and> j \<in> set (following a') \<and>
           users d' j = Some b' \<and> i \<in> set (followers b')"
proof -
  let ?d1 = "if B \<in> set (map toString (following a)) then d
             else save_following d i (following a @ [j])"
  let ?d2 = "if A \<in> set (map toString (followers b)) then ?d1
             else save_followers ?d1 j (followers b @ [i])"
  have run: "user_follow d A B = (?d2, Inr ''Followed successfully.'')"
    using user_follow_found [OF assms] by (simp add: Let_def)
  have in1: "B \<in> set (map toString (following a)) \<Longrightarrow> j \<in> set (following a)"
    using assms(3) by (rule member_prints)
  have in2: "A \<in> set (map toString (followers b)) \<Longrightarrow> i \<in> set (followers b)"
    using assms(2) by (rule member_prints)
  have a1: "\<exists>a1. users ?d1 i = Some a1 \<and> j \<in> set (following a1) \<and>
            followers a1 = followers a"
  proof (cases "B \<in> set (map toString (following a))")
    case True
    with assms(4) in1 show ?thesis by simp
  next
    case False
    with assms(4) show ?thesis by (simp add: save_following_users)
  qed
  have b1: "\<exists>b1. users ?d1 j = Some b1 \<and> followers b1 = followers b"
  proof (cases "B \<in> set (map toString (following a))")
    case True
    with assms(5) show ?thesis by simp
  next
    case False
    with assms(4,5) show ?thesis by (auto simp: save_following_users)
  qed
  from a1 obtain a1 where a1': "users ?d1 i = Some a1" "j \<in> set (following a1)"
    by blast
  from b1 obtain b1 where b1': "users ?d1 j = Some b1" "followers b1 = followers b"
    by blast
  have b2: "\<exists>b2. users ?d2 j = Some b2 \<and> i \<in> set (followers b2)"
  proof (cases "A \<in> set (map toString (followers b))")
    case True
    with b1' in2 show ?thesis by simp
  next
    case False
    with b1' show ?thesis by (simp add: save_followers_users)
  qed
  have a2: "\<exists>a2. users ?d2 i = Some a2 \<and> j \<in> set (following a2)"
  proof (cases "A \<in> set (map toString (followers b))")
    case True
    with a1' show ?thesis by simp
  next
    case False
    with a1' b1' show ?thesis
      by (cases "i = j") (auto simp: save_followers_users)
  qed
  from run a2 b2 show ?thesis by auto
qed

theorem follow_adds_edge_witness:
  "bob_hex \<noteq> alice_hex \<and> castObjectId bob_hex = Some bob_id \<and>
   castObjectId alice_hex = Some alice_id \<and>
   users two_users bob_id = Some bob \<and> users two_users alice_id = Some alice \<and>
   (\<exists>d' a' b'. user_follow two_users bob_hex alice_hex = (d', Inr ''Followed successfully.'') \<and>
      users d' bob_id = Some a' \<and> alice_id \<in> set (following a') \<and>
      users d' alice_id = Some b' \<and> bob_id \<in> set (followers b'))"
proof -
  have h: "bob_hex \<noteq> alice_hex" "castObjectId bob_hex = Some bob_id"
    "castObjectId alice_hex = Some alice_id"
    "users two_users bob_id = Some bob" "users two_users alice_id = Some alice"
    by (simp_all add: two_users_def strings_differ cast_examples ids_distinct)
  from follow_adds_edge [OF h] h show ?thesis by simp
qed

text \<open>The example database \<open>followed_db\<close> is what Bob's follow request makes of \<open>two_users\<close>.\<close>

lemma follow_example:
  "user_follow two_users bob_hex alice_hex = (followed_db, Inr ''Followed successfully.'')"
proof -
  have h: "bob_hex \<noteq> alice_hex" "castObjectId bob_hex = Some bob_id"
    "castObjectId alice_hex = Some alice_id"
    "users two_users bob_id = Some bob" "users two_users alice_id = Some alice"
    by (simp_all add: two_users_def strings_differ cast_examples ids_distinct)
  have "users (save_followers (save_following two_users bob_id [alice_id]) alice_id [bob_id])
        = users followed_db"
    by (rule ext)
      (simp add: save_following_def save_followers_def two_users_def followed_db_def
        ids_distinct)
  moreover have
    "posts (save_followers (save_following two_users bob_id [alice_id]) alice_id [bob_id])
     = posts followed_db"
    by (simp add: save_following_def save_followers_def two_users_def followed_db_def
        ids_distinct)
  ultimately have
    "save_followers (save_following two_users bob_id [alice_id]) alice_id [bob_id] = followed_db"
    by simp
  then show ?thesis
    unfolding user_follow_found [OF h] by (simp add: alice_def bob_def)
qed

text \<open>
  The self check of \<open>follow\<close> rejects a request that names one user by the same string
  twice: status 400, the status of an invalid argument, and the database it was given.
\<close>

lemma follow_self_rejected:
  "user_follow d A A =
     (d, Inl (Failure 400 (if A = [] then ''userId and targetId are required.''
                           else ''You cannot follow yourself.'')))"
  by (simp add: user_follow_def)

text \<open>
  Claim C6. For every user A, \<open>follow(A, A)\<close> is to fail with an invalid argument and to
  leave all user records unchanged. The handler does not do so for every request that
  names one user twice. Its check compares the request strings, and the lookups cast
  them: a request that names Alice twice, once with upper-case digits, passes the
  check and finds Alice both times. The answer is 200, and Alice's record now has her
  in her own \<open>following\<close> and \<open>followers\<close>.
\<close>

theorem follow_self_two_spellings:
  "castObjectId alice_upper = Some alice_id \<and> castObjectId alice_hex = Some alice_id \<and>
   users two_users alice_id = Some alice \<and>
   snd (user_follow two_users alice_upper alice_hex) = Inr ''Followed successfully.'' \<and>
   users (fst (user_follow two_users alice_upper alice_hex)) alice_id =
     Some (alice\<lparr>followers := [alice_id], following := [alice_id]\<rparr>)"
proof -
  have h: "alice_upper \<noteq> alice_hex" "castObjectId alice_upper = Some alice_id"
    "castObjectId alice_hex = Some alice_id"
    "users two_users alice_id = Some alice" "users two_users alice_id = Some alice"
    by (simp_all add: two_users_def strings_differ cast_upper cast_examples ids_distinct)
  show ?thesis
    unfolding user_follow_found [OF h]
    using h by (simp add: save_following_def save_followers_def two_users_def alice_def)
qed

text \<open>
  Claim C7. Let A and B be request strings that cast to the ids of existing users, with
  the user of B not in the \<open>following\<close> list of the user of A and the user of A not in
  the \<open>followers\<close> list of the user of B. Then \<open>unfollow(A, B)\<close> answers with success
  and the database it leaves is the one it was given: no follower or following list
  changes.
\<close>

theorem unfollow_unconnected_noop:
  assumes "castObjectId A = Some i" and "castObjectId B = Some j"
    and "users d i = Some a" and "users d j = Some b"
    and "j \<notin> set (following a)" and "i \<notin> set (followers b)"
  shows "user_unfollow d A B = (d, Inr ''Unfollowed successfully.'')"
proof -
  have "\<forall>x\<in>set (following a). toString x \<noteq> B"
    using assms(2,5) by auto
  then have f1: "filter (\<lambda>x. toString x \<noteq> B) (following a) = following a"
    by (simp add: filter_id_conv)
  have "\<forall>x\<in>set (followers b). toString x \<noteq> A"
    using assms(1,6) by auto
  then have f2: "filter (\<lambda>x. toString x \<noteq> A) (followers b) = followers b"
    by (simp add: filter_id_conv)
  have s1: "save_following d i (following a) = d"
    using assms(3) by (simp add: save_following_def map_upd_triv)
  have s2: "save_followers d j (followers b) = d"
    using assms(4) by (simp add: save_followers_def map_upd_triv)
  show ?thesis
    using assms(1-4) cast_not_empty [of A i] cast_not_empty [of B j]
    by (simp add: user_unfollow_def Let_def f1 f2 s1 s2)
qed

theorem unfollow_unconnected_noop_witness:
  "castObjectId alice_hex = Some alice_id \<and> castObjectId bob_hex = Some bob_id \<and>
   users two_users alice_id = Some alice \<and> users two_users bob_id = Some bob \<and>
   bob_id \<notin> set (following alice) \<and> alice_id \<notin> set (followers bob) \<and>
   user_unfollow two_users alice_hex bob_hex = (two_users, Inr ''Unfollowed successfully.'')"
proof -
  have h: "castObjectId alice_hex = Some alice_id" "castObjectId bob_hex = Some bob_id"
    "users two_users alice_id = Some alice" "users two_users bob_id = Some bob"
    "bob_id \<notin> set (following alice)" "alice_id \<notin> set (followers bob)"
    by (simp_all add: two_users_def cast_examples ids_distinct alice_def bob_def)
  from unfollow_unconnected_noop [OF h] h show ?thesis by simp
qed

section \<open>Properties of the profile view\<close>

lemma populated_ids:
  "summary_id ` set (populate_users d ids) = set ids \<inter> dom (users d)"
proof (induction ids)
  case Nil
  show ?case by (simp add: populate_users_def)
next
  case (Cons i ids)
  then show ?case
    by (cases "users d i") (auto simp: populate_users_def populate_user_def)
qed

lemma list_ex_summary:
  "list_ex (\<lambda>f. toString (summary_id f) = m) (populate_users d ids) \<longleftrightarrow>
   (\<exists>f. toString f = m \<and> f \<in> set ids \<and> f \<in> dom (users d))"
proof -
  have "list_ex (\<lambda>f. toString (summary_id f) = m) (populate_users d ids) \<longleftrightarrow>
        (\<exists>f \<in> summary_id ` set (populate_users d ids). toString f = m)"
    by (auto simp: list_ex_iff)
  then show ?thesis
    unfolding populated_ids by blast
qed

text \<open>
  What the handler computes for an existing user: \<open>isFollowing\<close> is true exactly when
  \<open>myId\<close> is given, differs from \<open>id\<close> as a string, and is the print of a follower that
  is an existing user.
\<close>

lemma profile_isFollowing:
  assumes "castObjectId uid = Some i" and "users d i = Some u"
  shows "\<exists>v. get_profile d uid myId = Inr v \<and>
           (isFollowing v \<longleftrightarrow>
              (\<exists>m f. myId = Some m \<and> m \<noteq> uid \<and> toString f = m \<and>
                     f \<in> set (followers u) \<and> f \<in> dom (users d)))"
  using assms
  by (cases myId) (auto simp: get_profile_def Let_def list_ex_summary)

text \<open>
  The view of Alice for Bob, who follows her, when Bob's id comes as \<open>toString()\<close>
  prints it.
\<close>

lemma profile_example:
  "\<exists>v. get_profile followed_db alice_hex (Some bob_hex) = Inr v \<and> isFollowing v \<and>
        followersCount v = 1"
proof -
  have u: "users followed_db alice_id = Some (alice\<lparr>followers := [bob_id]\<rparr>)"
    "users followed_db bob_id = Some (bob\<lparr>following := [alice_id]\<rparr>)"
    by (simp_all add: followed_db_def ids_distinct)
  show ?thesis
    using u
    by (simp add: get_profile_def Let_def populate_users_def populate_user_def
        cast_examples toString_examples strings_differ)
qed

text \<open>
  Claim C8. Bob follows Alice. When the same Bob views Alice's profile and his id comes
  with upper-case digits, \<open>myId\<close> is given, differs from \<open>id\<close> and names a member of
  Alice's followers, yet \<open>isFollowing\<close> is false: the handler compares the string with
  the lower-case prints of the followers' ids, while the lookup of \<open>id\<close> beside it
  casts.
\<close>

theorem profile_viewer_upper_case:
  "castObjectId bob_upper = Some bob_id \<and>
   users followed_db alice_id = Some (alice\<lparr>followers := [bob_id]\<rparr>) \<and>
   bob_id \<in> set (followers (alice\<lparr>followers := [bob_id]\<rparr>)) \<and>
   bob_upper \<noteq> alice_hex \<and>
   (\<exists>v. get_profile followed_db alice_hex (Some bob_upper) = Inr v \<and> \<not> isFollowing v \<and>
        followersCount v = 1)"
proof -
  have u: "users followed_db alice_id = Some (alice\<lparr>followers := [bob_id]\<rparr>)"
    "users followed_db bob_id = Some (bob\<lparr>following := [alice_id]\<rparr>)"
    by (simp_all add: followed_db_def ids_distinct)
  have n: "bob_upper \<noteq> alice_hex"
    by (simp add: bob_upper_def alice_hex_def)
  have "\<exists>v. get_profile followed_db alice_hex (Some bob_upper) = Inr v \<and> \<not> isFollowing v \<and>
        followersCount v = 1"
    using u n
    by (simp add: get_profile_def Let_def populate_users_def populate_user_def
        cast_examples toString_examples strings_differ)
  with u n show ?thesis
    by (simp add: cast_upper)
qed

section \<open>Properties of comments\<close>

lemma lookup_save_post:
  "map_of (posts (save_post d P p)) Q = (if Q = P then Some p else map_of (posts d) Q)"
  by (simp add: save_post_def update_conv')

text \<open>
  Claim C4. For an existing post, an author id that casts and a comment text that is
  not empty, \<open>addComment\<close> succeeds and stores the post with its earlier comments as
  they were and in their order, followed by exactly one new comment: the given author,
  the given text and the time of the call. The answer lists the same comments
  populated: the earlier ones first, the new one last.
\<close>

theorem comment_appended:
  assumes "castObjectId postId = Some pid" and "castObjectId userId = Some u"
    and "commentText \<noteq> []" and "map_of (posts d) pid = Some p"
  shows "\<exists>d' cs. post_comment d now postId userId commentText = (d', Inr cs) \<and>
           map_of (posts d') pid =
             Some (p\<lparr>comments := comments p @
                     [\<lparr>comment_userId = u, comment_text = commentText,
                       comment_createdAt = now\<rparr>]\<rparr>) \<and>
           cs = map (populate_comment d) (comments p) @
                  [\<lparr>populated_user = populate_user d u,
                    populated_text = commentText, populated_createdAt = now\<rparr>]"
proof -
  let ?c = "\<lparr>comment_userId = u, comment_text = commentText, comment_createdAt = now\<rparr>"
  let ?d' = "save_post d pid (p\<lparr>comments := comments p @ [?c]\<rparr>)"
  have run: "post_comment d now postId userId commentText =
      (?d', Inr (map (populate_comment ?d') (comments p @ [?c])))"
    using assms cast_not_empty [of postId pid] cast_not_empty [of userId u]
    by (simp add: post_comment_def Let_def)
  have "populate_comment ?d' = populate_comment d"
    by (rule ext) (simp add: populate_comment_def populate_user_def save_post_def)
  then have "map (populate_comment ?d') (comments p @ [?c]) =
      map (populate_comment d) (comments p) @
        [\<lparr>populated_user = populate_user d u,
          populated_text = commentText, populated_createdAt = now\<rparr>]"
    by (simp add: populate_comment_def)
  with run show ?thesis
    by (simp add: lookup_save_post)
qed

text \<open>
  On the post that already has Bob's and Alice's comments, in this order, Bob's new
  comment, sent under his id in upper-case digits, is stored third and answered third.
\<close>

theorem comment_appended_witness:
  "castObjectId post1_hex = Some post1_id \<and> castObjectId bob_upper = Some bob_id \<and>
   ''nice'' \<noteq> [] \<and> map_of (posts commented_db) post1_id = Some commented_post \<and>
   comments commented_post = [first_comment, second_comment] \<and>
   (\<exists>d' cs. post_comment commented_db 1700000200000 post1_hex bob_upper ''nice'' =
        (d', Inr cs) \<and>
      map_of (posts d') post1_id =
        Some (commented_post\<lparr>comments :=
                [first_comment, second_comment,
                 \<lparr>comment_userId = bob_id, comment_text = ''nice'',
                   comment_createdAt = 1700000200000\<rparr>]\<rparr>) \<and>
      map populated_text cs = [''first'', ''thanks'', ''nice''] \<and>
      map populated_createdAt cs = [1700000110000, 1700000120000, 1700000200000])"
proof -
  have h: "castObjectId post1_hex = Some post1_id" "castObjectId bob_upper = Some bob_id"
    "''nice'' \<noteq> []" "map_of (posts commented_db) post1_id = Some commented_post"
    by (simp_all add: commented_db_def cast_examples cast_upper)
  have e: "comments commented_post = [first_comment, second_comment]"
    by (simp add: commented_post_def)
  from comment_appended [OF h, of 1700000200000] h e show ?thesis
    by (auto simp: populate_comment_def first_comment_def second_comment_def)
qed

section \<open>Properties of likes\<close>

lemma toggle_like_remove:
  assumes "userId \<in> set (map toString (likedBy p))"
  shows "toggle_like userId p =
           Some (p\<lparr>likedBy := filter (\<lambda>i. toString i \<noteq> userId) (likedBy p),
                   likes := max (likes p - 1) 0\<rparr>)"
  using assms by (auto simp: toggle_like_def list_ex_iff)

lemma toggle_like_add:
  assumes "userId \<notin> set (map toString (likedBy p))" and "castObjectId userId = Some u"
  shows "toggle_like userId p = Some (p\<lparr>likedBy := likedBy p @ [u], likes := likes p + 1\<rparr>)"
  using assms by (auto simp: toggle_like_def list_ex_iff)

lemma toggle_like_empty: "toggle_like [] p = None"
  by (simp add: toggle_like_def list_ex_iff castObjectId_def)

text \<open>
  When the request string is the print of the id \<open>u\<close>, the string tests of the handler
  are tests on \<open>u\<close> itself.
\<close>

lemma toggle_like_print:
  "toggle_like (toString u) p =
     Some (if u \<in> set (likedBy p)
           then p\<lparr>likedBy := filter (\<lambda>i. i \<noteq> u) (likedBy p), likes := max (likes p - 1) 0\<rparr>
           else p\<lparr>likedBy := likedBy p @ [u], likes := likes p + 1\<rparr>)"
  by (auto simp: toggle_like_def list_ex_iff toString_inject)

lemma toggle_like_is_print:
  assumes "toggle_like U p = Some p'"
    and "\<forall>u. castObjectId U = Some u \<longrightarrow> toString u = U"
  shows "\<exists>u. U = toString u"
proof (cases "U \<in> set (map toString (likedBy p))")
  case True
  then show ?thesis by auto
next
  case False
  then have "\<not> list_ex (\<lambda>i. toString i = U) (likedBy p)"
    by (auto simp: list_ex_iff)
  with assms(1) obtain u where "castObjectId U = Some u"
    by (cases "castObjectId U") (simp_all add: toggle_like_def)
  with assms(2) show ?thesis by auto
qed

lemma toggle_print_count:
  assumes "likes p = int (card (set (likedBy p)))"
    and "toggle_like (toString u) p = Some p'"
  shows "likes p' = int (card (set (likedBy p')))"
proof (cases "u \<in> set (likedBy p)")
  case True
  have "card (set (likedBy p) - {u}) = card (set (likedBy p)) - 1"
    using True by simp
  moreover have "1 \<le> card (set (likedBy p))"
    using True by (cases "likedBy p") (auto simp: Suc_le_eq card_gt_0_iff)
  moreover have "set (likedBy p') = set (likedBy p) - {u}"
    using True assms(2) by (auto simp: toggle_like_print)
  moreover have "likes p' = max (likes p - 1) 0"
    using True assms(2) by (auto simp: toggle_like_print)
  ultimately show ?thesis
    using assms(1) by simp
next
  case False
  with assms show ?thesis
    by (auto simp: toggle_like_print)
qed

lemma toggle_print_distinct:
  assumes "distinct (likedBy p)" and "toggle_like (toString u) p = Some p'"
  shows "distinct (likedBy p')"
  using assms by (auto simp: toggle_like_print split: if_splits)

lemma post_like_found:
  assumes "castObjectId P = Some pid" and "map_of (posts d) pid = Some p"
    and "toggle_like U p = Some p'"
  shows "post_like d P U =
           (save_post d pid p',
            Inr \<lparr>like_message = ''Post like updated.'', like_likes = likes p',
                 like_likedBy = likedBy p'\<rparr>)"
proof -
  from assms(3) have "U \<noteq> []"
    using toggle_like_empty [of p] by auto
  with assms cast_not_empty [of P pid] show ?thesis
    by (simp add: post_like_def)
qed

lemma post_like_step:
  assumes "map_of (posts d) pid = Some p"
  shows "map_of (posts (fst (post_like d Q U))) pid = Some p \<or>
         (\<exists>p'. toggle_like U p = Some p' \<and>
               map_of (posts (fst (post_like d Q U))) pid = Some p')"
  using assms
  by (auto simp: post_like_def lookup_save_post split: option.splits)

text \<open>
  A property of posts that a toggle under a print keeps is kept, for the post stored
  under a given id, by every run of like requests whose user ids, where they cast at
  all, come as \<open>toString()\<close> prints them.
\<close>

lemma like_all_invariant:
  assumes step: "\<And>u q q'. Inv q \<Longrightarrow> toggle_like (toString u) q = Some q' \<Longrightarrow> Inv q'"
  shows "\<forall>r\<in>set rs. \<forall>u. castObjectId (snd r) = Some u \<longrightarrow> toString u = snd r \<Longrightarrow>
         map_of (posts d) pid = Some p \<Longrightarrow> Inv p \<Longrightarrow>
         \<exists>p'. map_of (posts (like_all d rs)) pid = Some p' \<and> Inv p'"
proof (induction rs arbitrary: d p)
  case Nil
  then show ?case by simp
next
  case (Cons r rs)
  obtain Q U where r: "r = (Q, U)" by (cases r)
  from Cons.prems(1) r have c: "\<forall>u. castObjectId U = Some u \<longrightarrow> toString u = U"
    by simp
  from post_like_step [OF Cons.prems(2), of Q U]
  have "\<exists>p1. map_of (posts (fst (post_like d Q U))) pid = Some p1 \<and> Inv p1"
  proof
    assume "map_of (posts (fst (post_like d Q U))) pid = Some p"
    with Cons.prems(3) show ?thesis by blast
  next
    assume "\<exists>p'. toggle_like U p = Some p' \<and>
                 map_of (posts (fst (post_like d Q U))) pid = Some p'"
    then obtain p' where t: "toggle_like U p = Some p'"
      and l: "map_of (posts (fst (post_like d Q U))) pid = Some p'" by blast
    from toggle_like_is_print [OF t c] obtain u where "U = toString u" ..
    with t Cons.prems(3) step have "Inv p'" by blast
    with l show ?thesis by blast
  qed
  then obtain p1 where p1: "map_of (posts (fst (post_like d Q U))) pid = Some p1"
    and i1: "Inv p1" by blast
  from Cons.prems(1) have "\<forall>r\<in>set rs. \<forall>u. castObjectId (snd r) = Some u \<longrightarrow> toString u = snd r"
    by simp
  from Cons.IH [OF this p1 i1] show ?case by (simp add: r)
qed

lemma likes_count_kept:
  assumes "\<forall>r\<in>set rs. \<forall>u. castObjectId (snd r) = Some u \<longrightarrow> toString u = snd r"
    and "map_of (posts d) pid = Some p"
    and "likes p = int (card (set (likedBy p)))"
  shows "\<exists>p'. map_of (posts (like_all d rs)) pid = Some p' \<and>
           likes p' = int (card (set (likedBy p')))"
  using like_all_invariant
    [where Inv = "\<lambda>q. likes q = int (card (set (likedBy q)))", OF toggle_print_count assms] .

lemma likedBy_distinct_kept:
  assumes "\<forall>r\<in>set rs. \<forall>u. castObjectId (snd r) = Some u \<longrightarrow> toString u = snd r"
    and "map_of (posts d) pid = Some p"
    and "distinct (likedBy p)"
  shows "\<exists>p'. map_of (posts (like_all d rs)) pid = Some p' \<and> distinct (likedBy p')"
  using like_all_invariant
    [where Inv = "\<lambda>q. distinct (likedBy q)", OF toggle_print_distinct assms] .

text \<open>The example database \<open>liked_db\<close> is \<open>one_post\<close> after Bob's like and then Alice's.\<close>

lemma liked_example:
  "like_all one_post [(post1_hex, bob_hex), (post1_hex, alice_hex)] = liked_db"
  by (simp add: post_like_def toggle_like_def save_post_def Let_def one_post_def liked_db_def
      liked_post_def fresh_post_def cast_examples toString_examples strings_differ
      ids_distinct)

text \<open>
  Claim C3. The counter follows the list as long as every like request names its user
  as \<open>toString()\<close> prints the id (\<open>likes_count_kept\<close>). It does not for every run of
  calls. On the new post, whose count 0 is the size of its empty \<open>likedBy\<close>, Bob likes,
  likes again with his id in upper-case digits, and likes a third time as at first.
  The second call does not find the upper-case string among the prints and pushes Bob's
  id again, with count 2; the third removes both entries and counts down by one. The
  post is left with count 1 and nobody in \<open>likedBy\<close>.
\<close>

theorem likes_count_two_spellings:
  "map_of (posts one_post) post1_id = Some fresh_post \<and>
   likes fresh_post = int (card (set (likedBy fresh_post))) \<and>
   map_of (posts (like_all one_post [(post1_hex, bob_hex), (post1_hex, bob_upper)])) post1_id =
     Some (fresh_post\<lparr>likedBy := [bob_id, bob_id], likes := 2\<rparr>) \<and>
   map_of (posts (like_all one_post
       [(post1_hex, bob_hex), (post1_hex, bob_upper), (post1_hex, bob_hex)])) post1_id =
     Some (fresh_post\<lparr>likedBy := [], likes := 1\<rparr>) \<and>
   likes (fresh_post\<lparr>likedBy := [], likes := 1\<rparr>) \<noteq>
     int (card (set (likedBy (fresh_post\<lparr>likedBy := [], likes := 1\<rparr>))))"
  by (simp add: post_like_def toggle_like_def save_post_def Let_def one_post_def
      fresh_post_def cast_examples cast_upper toString_examples strings_differ
      ids_distinct)

text \<open>
  Claim C9. No id is stored twice as long as every like request names its user as
  \<open>toString()\<close> prints the id (\<open>likedBy_distinct_kept\<close>). It is for other runs of
  calls. The new post has an empty \<open>likedBy\<close>; Bob likes it, and likes it again with his
  id in upper-case digits. The membership test compares that string with the lower-case
  print of the stored id and finds it absent, and \<open>push\<close> stores the id the string casts
  to, which is Bob's: \<open>likedBy\<close> now holds Bob's id twice.
\<close>

theorem likedBy_duplicate_two_spellings:
  "map_of (posts one_post) post1_id = Some fresh_post \<and> distinct (likedBy fresh_post) \<and>
   castObjectId bob_hex = Some bob_id \<and> castObjectId bob_upper = Some bob_id \<and>
   map_of (posts (like_all one_post [(post1_hex, bob_hex), (post1_hex, bob_upper)])) post1_id =
     Some (fresh_post\<lparr>likedBy := [bob_id, bob_id], likes := 2\<rparr>) \<and>
   \<not> distinct (likedBy (fresh_post\<lparr>likedBy := [bob_id, bob_id], likes := 2\<rparr>))"
  by (simp add: post_like_def toggle_like_def save_post_def Let_def one_post_def
      fresh_post_def cast_examples cast_upper toString_examples strings_differ
      ids_distinct)

text \<open>
  Claim C10. For an existing post and a user id that casts, the count toggleLike
  answers with is never negative when the stored count is not negative; and when the
  handler finds the user already in \<open>likedBy\<close> it is not negative whatever the stored
  count is, a stored 0 included: the answer is then the stored count less one, or 0 if
  that is below 0.
\<close>

theorem like_count_nonneg:
  assumes "castObjectId postId = Some pid" and "map_of (posts d) pid = Some p"
    and "castObjectId userId = Some u"
    and "userId \<in> set (map toString (likedBy p)) \<or> 0 \<le> likes p"
  shows "\<exists>d' b. post_like d postId userId = (d', Inr b) \<and> 0 \<le> like_likes b \<and>
           (userId \<in> set (map toString (likedBy p)) \<longrightarrow>
              like_likes b = max (likes p - 1) 0)"
proof (cases "userId \<in> set (map toString (likedBy p))")
  case True
  from post_like_found [OF assms(1,2) toggle_like_remove [OF True]] True
  show ?thesis by simp
next
  case False
  from post_like_found [OF assms(1,2) toggle_like_add [OF False assms(3)]] False assms(4)
  show ?thesis by simp
qed

theorem like_count_nonneg_witness:
  "castObjectId post1_hex = Some post1_id \<and>
   map_of (posts stale_db) post1_id = Some stale_post \<and>
   castObjectId bob_hex = Some bob_id \<and>
   bob_hex \<in> set (map toString (likedBy stale_post)) \<and> likes stale_post = 0 \<and>
   (\<exists>d' b. post_like stale_db post1_hex bob_hex = (d', Inr b) \<and> like_likes b = 0)"
proof -
  have h: "castObjectId post1_hex = Some post1_id"
    "map_of (posts stale_db) post1_id = Some stale_post"
    "castObjectId bob_hex = Some bob_id"
    by (simp_all add: stale_db_def cast_examples)
  have m: "bob_hex \<in> set (map toString (likedBy stale_post))" and z: "likes stale_post = 0"
    by (simp_all add: stale_post_def toString_examples)
  from m have c: "bob_hex \<in> set (map toString (likedBy stale_post)) \<or> 0 \<le> likes stale_post"
    by simp
  from like_count_nonneg [OF h c] h m z show ?thesis by auto
qed

text \<open>
  Claim C2, as amended. Take an existing post P and a user whose id \<open>u\<close> the requests
  carry as \<open>toString()\<close> prints it. Let the stored \<open>likes\<close> be at least 1 if \<open>u\<close> is in
  \<open>likedBy\<close> and at least 0 if not (every post whose \<open>likes\<close> is the number of its
  \<open>likedBy\<close> entries is such a post). Then two toggleLike calls of the user on P in
  succession leave the post with \<open>likes\<close> at its value before the calls and with the same
  users in \<open>likedBy\<close> as before. Every other field is untouched; the list itself is the
  old one when \<open>u\<close> was not in it, and the old one with \<open>u\<close> moved to the end when it
  was.
\<close>

theorem double_toggle_restores:
  assumes "castObjectId P = Some pid" and "map_of (posts d) pid = Some p"
    and "toString u = U"
    and "(if u \<in> set (likedBy p) then 1 else 0) \<le> likes p"
  shows "\<exists>p'. map_of (posts (like_all d [(P, U), (P, U)])) pid = Some p' \<and>
           likes p' = likes p \<and> set (likedBy p') = set (likedBy p) \<and>
           p' = p\<lparr>likedBy := (if u \<in> set (likedBy p)
                              then filter (\<lambda>i. i \<noteq> u) (likedBy p) @ [u]
                              else likedBy p)\<rparr>"
proof -
  let ?p1 = "if u \<in> set (likedBy p)
             then p\<lparr>likedBy := filter (\<lambda>i. i \<noteq> u) (likedBy p), likes := max (likes p - 1) 0\<rparr>
             else p\<lparr>likedBy := likedBy p @ [u], likes := likes p + 1\<rparr>"
  let ?l = "if u \<in> set (likedBy p) then filter (\<lambda>i. i \<noteq> u) (likedBy p) @ [u]
            else likedBy p"
  have t1: "toggle_like U p = Some ?p1"
    using toggle_like_print [of u p] assms(3) by simp
  have f: "u \<notin> set (likedBy p) \<Longrightarrow> filter (\<lambda>i. i \<noteq> u) (likedBy p) = likedBy p"
    by (auto simp: filter_id_conv)
  have t2: "toggle_like U ?p1 = Some (p\<lparr>likedBy := ?l\<rparr>)"
    using toggle_like_print [of u ?p1] assms(3,4) by (auto simp: f)
  have l1: "post_like d P U =
      (save_post d pid ?p1,
       Inr \<lparr>like_message = ''Post like updated.'', like_likes = likes ?p1,
            like_likedBy = likedBy ?p1\<rparr>)"
    by (rule post_like_found [OF assms(1,2) t1])
  have s1: "map_of (posts (save_post d pid ?p1)) pid = Some ?p1"
    by (simp add: lookup_save_post)
  have l2: "post_like (save_post d pid ?p1) P U =
      (save_post (save_post d pid ?p1) pid (p\<lparr>likedBy := ?l\<rparr>),
       Inr \<lparr>like_message = ''Post like updated.'', like_likes = likes (p\<lparr>likedBy := ?l\<rparr>),
            like_likedBy = likedBy (p\<lparr>likedBy := ?l\<rparr>)\<rparr>)"
    by (rule post_like_found [OF assms(1) s1 t2])
  have "map_of (posts (like_all d [(P, U), (P, U)])) pid = Some (p\<lparr>likedBy := ?l\<rparr>)"
    by (simp add: l1 l2 lookup_save_post)
  moreover have "set ?l = set (likedBy p)"
    by auto
  ultimately show ?thesis
    by simp
qed

theorem double_toggle_restores_witness:
  "castObjectId post1_hex = Some post1_id \<and>
   map_of (posts liked_db) post1_id = Some liked_post \<and>
   toString bob_id = bob_hex \<and>
   bob_id \<in> set (likedBy liked_post) \<and> 1 \<le> likes liked_post \<and>
   (\<exists>p'. map_of (posts (like_all liked_db [(post1_hex, bob_hex), (post1_hex, bob_hex)]))
            post1_id = Some p' \<and>
      likes p' = 2 \<and> likedBy p' = [alice_id, bob_id])"
proof -
  have h: "castObjectId post1_hex = Some post1_id"
    "map_of (posts liked_db) post1_id = Some liked_post" "toString bob_id = bob_hex"
    by (simp_all add: liked_db_def cast_examples toString_examples)
  have m: "bob_id \<in> set (likedBy liked_post)" and c: "1 \<le> likes liked_post"
    and l: "likes liked_post = 2" and s: "likedBy liked_post = [bob_id, alice_id]"
    by (auto simp: liked_post_def)
  from m c have g: "(if bob_id \<in> set (likedBy liked_post) then 1 else 0) \<le> likes liked_post"
    by simp
  from double_toggle_restores [OF h g] h m c l s show ?thesis
    by (auto simp: ids_distinct)
qed

text \<open>
  The claim as it is written, for every post, fails on the stored post whose counter is
  0 while Bob is in \<open>likedBy\<close>: his first call removes him and clamps the counter at 0,
  his second call adds him back and counts 1.
\<close>

theorem double_toggle_counterexample:
  "map_of (posts stale_db) post1_id = Some stale_post \<and>
   likes stale_post = 0 \<and> likedBy stale_post = [bob_id] \<and>
   toString bob_id = bob_hex \<and>
   map_of (posts (like_all stale_db [(post1_hex, bob_hex), (post1_hex, bob_hex)])) post1_id =
     Some (stale_post\<lparr>likes := 1\<rparr>) \<and>
   likes (stale_post\<lparr>likes := 1\<rparr>) \<noteq> likes stale_post"
  by (simp add: post_like_def toggle_like_def save_post_def Let_def stale_db_def
      stale_post_def fresh_post_def cast_examples toString_examples strings_differ
      ids_distinct)

section \<open>Properties of the post listing\<close>

lemma mapped_post_author:
  assumes "users d (post_userId (snd ip)) = Some u"
  shows "\<exists>e. mapped_post d ip = Some e \<and> entry_id e = fst ip \<and>
           entry_userId e = post_userId (snd ip) \<and>
           entry_createdAt e = post_createdAt (snd ip)"
  using assms by (simp add: mapped_post_def populate_user_def)

lemma mapped_posts_author:
  assumes "users d x = Some u"
  shows "\<forall>ip\<in>set ps. post_userId (snd ip) = x \<Longrightarrow>
         \<exists>es. mapped_posts d ps = Some es \<and> map entry_id es = map fst ps \<and>
           (\<forall>e\<in>set es. entry_userId e = x) \<and>
           map entry_createdAt es = map (\<lambda>ip. post_createdAt (snd ip)) ps"
proof (induction ps)
  case Nil
  then show ?case by simp
next
  case (Cons ip ps)
  from Cons.prems have "users d (post_userId (snd ip)) = Some u"
    using assms by simp
  from mapped_post_author [OF this] obtain e where e: "mapped_post d ip = Some e"
    "entry_id e = fst ip" "entry_userId e = post_userId (snd ip)"
    "entry_createdAt e = post_createdAt (snd ip)" by blast
  from Cons obtain es where es: "mapped_posts d ps = Some es" "map entry_id es = map fst ps"
    "\<forall>e\<in>set es. entry_userId e = x"
    "map entry_createdAt es = map (\<lambda>ip. post_createdAt (snd ip)) ps" by auto
  show ?case using e es Cons.prems by simp
qed

lemma newest_first_entries:
  assumes "map entry_createdAt es = map (\<lambda>ip. post_createdAt (snd ip)) ps"
  shows "sorted_wrt (\<lambda>a b. entry_createdAt b \<le> entry_createdAt a) es = newest_first ps"
proof -
  have "sorted_wrt (\<lambda>a b. entry_createdAt b \<le> entry_createdAt a) es =
        sorted_wrt (\<lambda>x y. y \<le> x) (map entry_createdAt es)"
    by (simp add: sorted_wrt_map)
  also have "\<dots> = sorted_wrt (\<lambda>x y. y \<le> x) (map (\<lambda>ip. post_createdAt (snd ip)) ps)"
    by (simp add: assms)
  also have "\<dots> = newest_first ps"
    by (simp add: newest_first_def sorted_wrt_map)
  finally show ?thesis .
qed

lemma find_posts_author:
  assumes "castObjectId X = Some x"
  shows "find_posts d (Some X) = Some (filter (\<lambda>ip. post_userId (snd ip) = x) (posts d))"
  using assms cast_not_empty [of X x] by (simp add: find_posts_def post_filter_def)

text \<open>Whenever the filter casts, the query has an answer: the matched posts, newest first.\<close>

lemma sorted_posts_exists:
  assumes "find_posts d userId = Some found"
  shows "\<exists>ps. sorted_posts d userId ps"
proof -
  let ?f = "\<lambda>ip :: objectId \<times> post. post_createdAt (snd ip)"
  let ?ps = "rev (sort_key ?f found)"
  have "sorted_wrt (\<lambda>x y. y \<le> x) (rev (map ?f (sort_key ?f found)))"
    by (simp only: sorted_wrt_rev) (simp add: sorted_sort_key)
  then have "newest_first ?ps"
    by (simp add: newest_first_def sorted_wrt_map rev_map)
  moreover have "mset ?ps = mset found"
    by simp
  ultimately have "sorted_posts d userId ?ps"
    using assms by (simp add: sorted_posts_def)
  then show ?thesis ..
qed

lemma feed_db_posts:
  "find_posts feed_db (Some alice_hex) =
     Some [(post1_id, fresh_post), (post3_id, again_post)]"
  unfolding find_posts_author [OF cast_examples(1)]
  by (simp add: feed_db_def fresh_post_def again_post_def ids_distinct)

lemma feed_db_first:
  "get_posts feed_db (Some alice_hex) [(post1_id, fresh_post), (post3_id, again_post)] =
     Inr [feed_entry1, feed_entry3]"
  by (simp add: get_posts_def post_filter_def cast_examples strings_differ mapped_post_def
      populate_user_def feed_db_def fresh_post_def again_post_def feed_entry1_def
      feed_entry3_def alice_def ids_distinct)

lemma feed_db_second:
  "get_posts feed_db (Some alice_hex) [(post3_id, again_post), (post1_id, fresh_post)] =
     Inr [feed_entry3, feed_entry1]"
  by (simp add: get_posts_def post_filter_def cast_examples strings_differ mapped_post_def
      populate_user_def feed_db_def fresh_post_def again_post_def feed_entry1_def
      feed_entry3_def alice_def ids_distinct)

text \<open>
  Claim C5, as amended. For every existing author X, every answer of the query with
  filter \<open>{userId: X}\<close> makes \<open>listPosts\<close> succeed with entries whose author is X, one for
  each post of X and for no other post, in an order in which the creation timestamp
  never increases. The handler names no second sort key: the order of two posts with
  the same timestamp is the one the database answers with.
\<close>

theorem posts_of_author_newest_first:
  assumes "castObjectId X = Some x" and "users d x = Some u"
    and "sorted_posts d (Some X) ps"
  shows "\<exists>es. get_posts d (Some X) ps = Inr es \<and> (\<forall>e\<in>set es. entry_userId e = x) \<and>
           sorted_wrt (\<lambda>a b. entry_createdAt b \<le> entry_createdAt a) es \<and>
           mset (map entry_id es) =
             mset (map fst (filter (\<lambda>ip. post_userId (snd ip) = x) (posts d)))"
proof -
  let ?found = "filter (\<lambda>ip. post_userId (snd ip) = x) (posts d)"
  note found = find_posts_author [OF assms(1), of d]
  from assms(3) have m: "mset ps = mset ?found" and n: "newest_first ps"
    by (simp_all add: sorted_posts_def found)
  from m have "set ps = set ?found"
    by (rule mset_eq_setD)
  then have "\<forall>ip\<in>set ps. post_userId (snd ip) = x"
    by simp
  from mapped_posts_author [OF assms(2) this] obtain es where
    es: "mapped_posts d ps = Some es" "map entry_id es = map fst ps"
      "\<forall>e\<in>set es. entry_userId e = x"
      "map entry_createdAt es = map (\<lambda>ip. post_createdAt (snd ip)) ps" by blast
  have "mset (map entry_id es) = image_mset fst (mset ps)"
    by (simp add: es(2))
  then have "mset (map entry_id es) = mset (map fst ?found)"
    by (simp add: m)
  moreover have "sorted_wrt (\<lambda>a b. entry_createdAt b \<le> entry_createdAt a) es"
    using newest_first_entries [OF es(4)] n by simp
  moreover have "get_posts d (Some X) ps = Inr es"
    using assms(1) cast_not_empty [of X x]
    by (simp add: get_posts_def post_filter_def es(1))
  ultimately show ?thesis using es(3) by blast
qed

theorem posts_of_author_newest_first_witness:
  "castObjectId alice_hex = Some alice_id \<and> users feed_db alice_id = Some alice \<and>
   sorted_posts feed_db (Some alice_hex) [(post3_id, again_post), (post1_id, fresh_post)] \<and>
   (\<exists>es. get_posts feed_db (Some alice_hex)
            [(post3_id, again_post), (post1_id, fresh_post)] = Inr es \<and>
         list_all (\<lambda>e. entry_userId e = alice_id) es \<and>
         sorted_wrt (\<lambda>a b. entry_createdAt b \<le> entry_createdAt a) es)"
proof -
  have a: "castObjectId alice_hex = Some alice_id"
    by (rule cast_examples)
  have u: "users feed_db alice_id = Some alice"
    by (simp add: feed_db_def ids_distinct)
  have s: "sorted_posts feed_db (Some alice_hex)
      [(post3_id, again_post), (post1_id, fresh_post)]"
    by (simp add: sorted_posts_def feed_db_posts newest_first_def again_post_def)
  from posts_of_author_newest_first [OF a u s] a u s show ?thesis
    by (auto simp: list_all_iff)
qed

text \<open>
  The claim as it is written fails on the database with two posts of Alice's that have
  the same timestamp: the query admits them in either order, \<open>listPosts\<close> answers with
  the order it is given, and the two answers differ; the two entries carry the same
  timestamp, so neither answer is strictly descending.
\<close>

theorem posts_tie_counterexample:
  "sorted_posts feed_db (Some alice_hex) [(post1_id, fresh_post), (post3_id, again_post)] \<and>
   sorted_posts feed_db (Some alice_hex) [(post3_id, again_post), (post1_id, fresh_post)] \<and>
   get_posts feed_db (Some alice_hex) [(post1_id, fresh_post), (post3_id, again_post)] =
     Inr [feed_entry1, feed_entry3] \<and>
   get_posts feed_db (Some alice_hex) [(post3_id, again_post), (post1_id, fresh_post)] =
     Inr [feed_entry3, feed_entry1] \<and>
   [feed_entry1, feed_entry3] \<noteq> [feed_entry3, feed_entry1] \<and>
   entry_createdAt feed_entry1 = entry_createdAt feed_entry3"
proof -
  have s1: "sorted_posts feed_db (Some alice_hex)
      [(post1_id, fresh_post), (post3_id, again_post)]"
    by (simp add: sorted_posts_def feed_db_posts newest_first_def again_post_def)
  have s2: "sorted_posts feed_db (Some alice_hex)
      [(post3_id, again_post), (post1_id, fresh_post)]"
    by (simp add: sorted_posts_def feed_db_posts newest_first_def again_post_def)
  have n: "[feed_entry1, feed_entry3] \<noteq> [feed_entry3, feed_entry1]"
    by (simp add: feed_entry1_def feed_entry3_def ids_distinct)
  have t: "entry_createdAt feed_entry1 = entry_createdAt feed_entry3"
    by (simp add: feed_entry3_def)
  from s1 s2 feed_db_first feed_db_second n t show ?thesis by blast
qed

end
